theory Spec2Isabelle
  imports Main
begin

section \<open>Data of the emote auto-response (extensions/emote.py)\<close>

text \<open>
  A token of \<^verbatim>\<open>utils.lexer()\<close>: the loop of \<^verbatim>\<open>_extract_emotes\<close> reads its
  \<^verbatim>\<open>type\<close> (compared with the strings \<^verbatim>\<open>'TEXT'\<close> and \<^verbatim>\<open>'EMOTE'\<close>) and its
  \<^verbatim>\<open>value\<close> (the matched text).
\<close>

record token =
  tok_type :: string
  tok_value :: string

text \<open>
  What the code reads of a \<^verbatim>\<open>DatabaseEmote\<close>: \<^verbatim>\<open>emote.id\<close> and \<^verbatim>\<open>str(emote)\<close>.
\<close>

record emote =
  emote_id :: nat
  emote_str :: string

text \<open>What the handlers read of a \<^verbatim>\<open>discord.Message\<close> they receive.\<close>

record message =
  message_id :: nat
  channel_id :: nat
  guild_id :: "nat option"
  author_id :: nat
  author_mention :: string
  content :: string

text \<open>
  The \<^verbatim>\<open>discord.Message\<close> that \<^verbatim>\<open>channel.send\<close> returns and that
  \<^verbatim>\<open>self.replies\<close> stores: its id and its \<^verbatim>\<open>content\<close>.
\<close>

record reply =
  reply_id :: nat
  reply_content :: string

text \<open>
  The calls to the outbound client, in the order they are attempted:
  \<^verbatim>\<open>channel.send(text)\<close>, \<^verbatim>\<open>reply.edit(content=text)\<close>, \<^verbatim>\<open>reply.delete()\<close>.
\<close>

datatype call = Send nat string | Edit nat string | Delete nat

datatype error = KeyError | HTTPException | TypeError | AttributeError

text \<open>
  The collaborators whose code is not part of \<^verbatim>\<open>emote.py\<close>, taken as parameters:
  the lexer, the database lookup \<^verbatim>\<open>db.get_emote\<close> (\<open>None\<close> stands for
  \<^verbatim>\<open>EmoteNotFoundError\<close>), the helpers \<^verbatim>\<open>utils.clean_content\<close> and
  \<^verbatim>\<open>utils.fix_first_line\<close>, the checks \<^verbatim>\<open>on_message\<close> makes before it
  extracts, the permission \<^verbatim>\<open>quote\<close> asks for, and which outbound calls fail
  (a call may fail or not depending on the calls attempted before it).
\<close>

record env =
  lexer :: "string \<Rightarrow> token list"
  get_emote :: "string \<Rightarrow> emote option"
  clean_content :: "message \<Rightarrow> string \<Rightarrow> string"
  fix_first_line :: "string \<Rightarrow> string"
  should_reply :: "message \<Rightarrow> bool"
  context_valid :: "message \<Rightarrow> bool"
  external_emojis :: "message \<Rightarrow> bool"
  get_state :: "nat option \<Rightarrow> nat \<Rightarrow> bool"
  get_user_blacklist :: "nat \<Rightarrow> string option"
  manage_messages :: "message \<Rightarrow> bool"
  http_fails :: "call list \<Rightarrow> call \<Rightarrow> bool"

section \<open>Extraction\<close>

text \<open>Python's \<^verbatim>\<open>str.strip(chars)\<close>: drops the characters of \<open>chars\<close> at both ends.\<close>

definition strip :: "string \<Rightarrow> string \<Rightarrow> string" where
  "strip chars s =
     rev (dropWhile (\<lambda>c. c \<in> set chars) (rev (dropWhile (\<lambda>c. c \<in> set chars) s)))"

text \<open>
  \<^verbatim>\<open>emotes_used\<close> is a Python set of emote ids. It is kept as a duplicate-free list
  in order of first insertion; \<^verbatim>\<open>set.add\<close> of a member changes nothing.
\<close>

definition set_add :: "nat \<Rightarrow> nat list \<Rightarrow> nat list" where
  "set_add x xs = (if x \<in> set xs then xs else xs @ [x])"

text \<open>
  The loop of \<^verbatim>\<open>_extract_emotes\<close> over the tokens of the lexer. The predicate takes
  the token and the buffer \<^verbatim>\<open>out\<close>, may write to the buffer, and says whether the
  token is looked up. The state of the loop is the buffer and \<^verbatim>\<open>emotes_used\<close>.
\<close>

fun extract_loop ::
  "env \<Rightarrow> (token \<Rightarrow> string \<Rightarrow> bool \<times> string) \<Rightarrow> token list \<Rightarrow> string \<times> nat list
     \<Rightarrow> string \<times> nat list" where
  "extract_loop e predicate [] (out, emotes_used) = (out, emotes_used)"
| "extract_loop e predicate (toke1 # rest) (out, emotes_used) =
     (case predicate toke1 out of
        (False, out') \<Rightarrow> extract_loop e predicate rest (out', emotes_used)
      | (True, out') \<Rightarrow>
          (case get_emote e (strip '':;'' (tok_value toke1)) of
             None \<Rightarrow> extract_loop e predicate rest (out' @ tok_value toke1, emotes_used)
           | Some emote \<Rightarrow>
               extract_loop e predicate rest
                 (out' @ emote_str emote, set_add (emote_id emote) emotes_used)))"

text \<open>
  Lines 716 to 738: the loop from an empty buffer and an empty set, then
  \<^verbatim>\<open>result = out.getvalue() if emotes_used else content\<close>.
\<close>

definition extract_result ::
  "env \<Rightarrow> (token \<Rightarrow> string \<Rightarrow> bool \<times> string) \<Rightarrow> string \<Rightarrow> string \<times> nat list" where
  "extract_result e predicate content' =
     (case extract_loop e predicate (lexer e content') ('''', []) of
        (out, emotes_used) \<Rightarrow> (if emotes_used \<noteq> [] then out else content', emotes_used))"

text \<open>The predicate of \<^verbatim>\<open>extract_emotes\<close>: newlines pass through, emotes are looked up.\<close>

definition extract_predicate :: "token \<Rightarrow> string \<Rightarrow> bool \<times> string" where
  "extract_predicate toke1 out =
     (if tok_type toke1 = ''TEXT'' \<and> tok_value toke1 = [CHR 0x0A]
      then (False, out @ tok_value toke1)
      else (tok_type toke1 = ''EMOTE'', out))"

text \<open>The predicate of \<^verbatim>\<open>quote_emotes\<close>: everything but emotes is written as it is.\<close>

definition quote_predicate :: "token \<Rightarrow> string \<Rightarrow> bool \<times> string" where
  "quote_predicate toke1 out =
     (if tok_type toke1 \<noteq> ''EMOTE''
      then (False, out @ tok_value toke1)
      else (True, out))"

section \<open>The reply cache\<close>

text \<open>
  Modelled from the spec: \<^verbatim>\<open>utils.LRUDict\<close>, the type of \<^verbatim>\<open>self.replies\<close>, is
  not among the sources. The spec describes a mapping bounded at \<open>N\<close> entries that
  drops the least recently inserted or accessed entry first. The entries are kept
  oldest first.
\<close>

record ('k, 'v) LRUDict =
  lru_size :: nat
  lru_items :: "('k \<times> 'v) list"

text \<open>Modelled from the spec: \<^verbatim>\<open>LRUDict(size=n)\<close>, an empty cache bounded at \<open>n\<close>.\<close>

definition LRUDict_init :: "nat \<Rightarrow> ('k, 'v) LRUDict" where
  "LRUDict_init n = \<lparr>lru_size = n, lru_items = []\<rparr>"

text \<open>Modelled from the spec: the entries of a cache without the one for a key.\<close>

definition lru_remove :: "'k \<Rightarrow> ('k \<times> 'v) list \<Rightarrow> ('k \<times> 'v) list" where
  "lru_remove k xs = filter (\<lambda>p. fst p \<noteq> k) xs"

text \<open>Modelled from the spec: \<^verbatim>\<open>key in d\<close>, which reads the cache only.\<close>

definition lru_contains :: "('k, 'v) LRUDict \<Rightarrow> 'k \<Rightarrow> bool" where
  "lru_contains d k = (k \<in> set (map fst (lru_items d)))"

text \<open>
  Modelled from the spec: \<^verbatim>\<open>d[key]\<close>, an access: the entry becomes the most recent
  one. A missing key raises \<^verbatim>\<open>KeyError\<close>.
\<close>

definition lru_getitem :: "('k, 'v) LRUDict \<Rightarrow> 'k \<Rightarrow> error + 'v \<times> ('k, 'v) LRUDict" where
  "lru_getitem d k =
     (case map_of (lru_items d) k of
        None \<Rightarrow> Inl KeyError
      | Some v \<Rightarrow> Inr (v, d\<lparr>lru_items := lru_remove k (lru_items d) @ [(k, v)]\<rparr>))"

text \<open>
  Modelled from the spec: \<^verbatim>\<open>d[key] = value\<close>. A key already present is replaced and
  becomes the most recent; a new key in a full cache evicts the oldest entry.
\<close>

definition lru_setitem :: "('k, 'v) LRUDict \<Rightarrow> 'k \<Rightarrow> 'v \<Rightarrow> ('k, 'v) LRUDict" where
  "lru_setitem d k v =
     (if lru_contains d k then d\<lparr>lru_items := lru_remove k (lru_items d) @ [(k, v)]\<rparr>
      else if lru_size d \<le> length (lru_items d)
        then d\<lparr>lru_items := drop 1 (lru_items d) @ [(k, v)]\<rparr>
      else d\<lparr>lru_items := lru_items d @ [(k, v)]\<rparr>)"

text \<open>Modelled from the spec: \<^verbatim>\<open>del d[key]\<close>; a missing key raises \<^verbatim>\<open>KeyError\<close>.\<close>

definition lru_delitem :: "('k, 'v) LRUDict \<Rightarrow> 'k \<Rightarrow> error + ('k, 'v) LRUDict" where
  "lru_delitem d k =
     (if lru_contains d k then Inr (d\<lparr>lru_items := lru_remove k (lru_items d)\<rparr>)
      else Inl KeyError)"

text \<open>
  Modelled from the spec: \<^verbatim>\<open>d.pop(key)\<close>, which removes the entry and returns its
  value; a missing key raises \<^verbatim>\<open>KeyError\<close>.
\<close>

definition lru_pop :: "('k, 'v) LRUDict \<Rightarrow> 'k \<Rightarrow> error + 'v \<times> ('k, 'v) LRUDict" where
  "lru_pop d k =
     (case map_of (lru_items d) k of
        None \<Rightarrow> Inl KeyError
      | Some v \<Rightarrow> Inr (v, d\<lparr>lru_items := lru_remove k (lru_items d)\<rparr>))"

text \<open>
  Modelled from the spec: the operations on the cache as a history, to say what
  "least recently inserted or accessed" means. An insertion is \<^verbatim>\<open>d[key] = value\<close>, an
  access is \<^verbatim>\<open>d[key]\<close>, a removal is \<^verbatim>\<open>del d[key]\<close> or \<^verbatim>\<open>d.pop(key)\<close>.
\<close>

datatype ('k, 'v) cache_op = Insert 'k 'v | Access 'k | Remove 'k

text \<open>
  Modelled from the spec: one operation on the cache; an access or a removal of a
  missing key raises and leaves the cache as it is.
\<close>

fun lru_apply :: "('k, 'v) LRUDict \<Rightarrow> ('k, 'v) cache_op \<Rightarrow> ('k, 'v) LRUDict" where
  "lru_apply d (Insert k v) = lru_setitem d k v"
| "lru_apply d (Access k) = (case lru_getitem d k of Inl err \<Rightarrow> d | Inr (v, d') \<Rightarrow> d')"
| "lru_apply d (Remove k) = (case lru_delitem d k of Inl err \<Rightarrow> d | Inr d' \<Rightarrow> d')"

text \<open>
  Modelled from the spec: the cache after a history of operations, oldest operation
  first, on the empty cache bounded at \<open>n\<close>.
\<close>

definition lru_run :: "nat \<Rightarrow> ('k, 'v) cache_op list \<Rightarrow> ('k, 'v) LRUDict" where
  "lru_run n ops = foldl lru_apply (LRUDict_init n) ops"

text \<open>Modelled from the spec: an operation inserts or accesses the key.\<close>

fun touches :: "'k \<Rightarrow> ('k, 'v) cache_op \<Rightarrow> bool" where
  "touches k (Insert k' v) = (k' = k)"
| "touches k (Access k') = (k' = k)"
| "touches k (Remove k') = False"

text \<open>
  Modelled from the spec: when a key was last inserted or accessed, over a history
  given newest operation first: the position of that operation in the history counted
  from 1, and 0 when there is none.
\<close>

fun last_used_rev :: "'k \<Rightarrow> ('k, 'v) cache_op list \<Rightarrow> nat" where
  "last_used_rev k [] = 0"
| "last_used_rev k (op # older) =
     (if touches k op then Suc (length older) else last_used_rev k older)"

text \<open>Modelled from the spec: the same over a history given oldest operation first.\<close>

definition last_used :: "'k \<Rightarrow> ('k, 'v) cache_op list \<Rightarrow> nat" where
  "last_used k ops = last_used_rev k (rev ops)"

text \<open>
  Modelled from the spec: the entries stand in the order in which their keys were last
  inserted or accessed in the history, the least recent first.
\<close>

definition by_last_use :: "('k, 'v) cache_op list \<Rightarrow> ('k \<times> 'v) list \<Rightarrow> bool" where
  "by_last_use ops xs = sorted_wrt (\<lambda>p q. last_used (fst p) ops < last_used (fst q) ops) xs"

text \<open>
  Modelled from the spec: a cache in order after a history: it has its bound \<open>n\<close>,
  holds at most \<open>n\<close> entries, no key twice, and the entries stand by last use.
\<close>

definition cache_ok :: "nat \<Rightarrow> ('k, 'v) cache_op list \<Rightarrow> ('k, 'v) LRUDict \<Rightarrow> bool" where
  "cache_ok n ops d \<longleftrightarrow>
     lru_size d = n \<and> length (lru_items d) \<le> n \<and> distinct (map fst (lru_items d))
     \<and> by_last_use ops (lru_items d)"

section \<open>State and effects\<close>

text \<open>
  What the handlers change: the cache \<^verbatim>\<open>self.replies\<close>, the outbound calls attempted so
  far, and the calls \<^verbatim>\<open>db.log_emote_use(emote, user)\<close> made so far.
\<close>

record world =
  replies :: "(nat, reply) LRUDict"
  calls :: "call list"
  usage :: "(nat \<times> nat) list"

text \<open>\<^verbatim>\<open>Emotes.__init__\<close>: \<^verbatim>\<open>self.replies = utils.LRUDict(size=1024**2//256)\<close>.\<close>

definition Emotes_init :: world where
  "Emotes_init = \<lparr>replies = LRUDict_init (1024 ^ 2 div 256), calls = [], usage = []\<rparr>"

definition log_emote_use :: "nat \<Rightarrow> nat \<Rightarrow> world \<Rightarrow> world" where
  "log_emote_use emote' user w = w\<lparr>usage := usage w @ [(emote', user)]\<rparr>"

text \<open>
  Lines 741 and 742, \<^verbatim>\<open>for emote in emotes_used: await self.db.log_emote_use(...)\<close>.
  Python leaves the order of the iteration open; the list is walked front to back.
\<close>

fun log_all :: "nat list \<Rightarrow> nat \<Rightarrow> world \<Rightarrow> world" where
  "log_all [] user w = w"
| "log_all (emote' # rest) user w = log_all rest user (log_emote_use emote' user w)"

text \<open>
  \<^verbatim>\<open>channel.send(text)\<close>: the call is recorded; it raises or returns the new message,
  whose id is fresh (the number of calls attempted before it).
\<close>

definition channel_send :: "env \<Rightarrow> nat \<Rightarrow> string \<Rightarrow> world \<Rightarrow> (error + reply) \<times> world" where
  "channel_send e ch text' w =
     (let c = Send ch text'; w' = w\<lparr>calls := calls w @ [c]\<rparr> in
      if http_fails e (calls w) c then (Inl HTTPException, w')
      else (Inr \<lparr>reply_id = length (calls w), reply_content = text'\<rparr>, w'))"

text \<open>\<^verbatim>\<open>reply.delete()\<close>: the call is recorded; it raises or returns.\<close>

definition reply_delete :: "env \<Rightarrow> reply \<Rightarrow> world \<Rightarrow> error option \<times> world" where
  "reply_delete e r w =
     (let c = Delete (reply_id r); w' = w\<lparr>calls := calls w @ [c]\<rparr> in
      if http_fails e (calls w) c then (Some HTTPException, w') else (None, w'))"

text \<open>
  \<^verbatim>\<open>reply.edit(content=text)\<close>: the call is recorded; when it succeeds, the message
  object, which is the one the cache holds, has the new content.
\<close>

definition reply_edit :: "env \<Rightarrow> reply \<Rightarrow> string \<Rightarrow> world \<Rightarrow> error option \<times> world" where
  "reply_edit e r text' w =
     (let c = Edit (reply_id r) text'; w' = w\<lparr>calls := calls w @ [c]\<rparr> in
      if http_fails e (calls w) c then (Some HTTPException, w')
      else (None, w'\<lparr>replies := (replies w')\<lparr>lru_items :=
              map (\<lambda>(k, v). if reply_id v = reply_id r then (k, v\<lparr>reply_content := text'\<rparr>)
                             else (k, v))
                (lru_items (replies w'))\<rparr>\<rparr>))"

section \<open>The extraction functions\<close>

text \<open>
  \<^verbatim>\<open>_extract_emotes(message, content, predicate=..., log_usage=...)\<close>, lines 700 to 744.
  \<open>None\<close> for the content is Python's default \<^verbatim>\<open>content=None\<close>.
\<close>

definition extract_emotes_impl ::
  "env \<Rightarrow> message \<Rightarrow> string option \<Rightarrow> (token \<Rightarrow> string \<Rightarrow> bool \<times> string) \<Rightarrow> bool \<Rightarrow> world
     \<Rightarrow> (string \<times> bool) \<times> world" where
  "extract_emotes_impl e message' content_opt predicate log_usage w =
     (let content' = (case content_opt of None \<Rightarrow> content message' | Some c \<Rightarrow> c) in
      case extract_result e predicate content' of
        (result, emotes_used) \<Rightarrow>
          ((clean_content e message' result, emotes_used \<noteq> []),
           (if log_usage then log_all emotes_used (author_id message') w else w)))"

definition extract_emotes ::
  "env \<Rightarrow> message \<Rightarrow> string option \<Rightarrow> bool \<Rightarrow> world \<Rightarrow> (string \<times> bool) \<times> world" where
  "extract_emotes e message' content_opt log_usage w =
     (case extract_emotes_impl e message' content_opt extract_predicate log_usage w of
        ((extracted, has_emotes), w') \<Rightarrow> ((fix_first_line e extracted, has_emotes), w'))"

definition quote_emotes ::
  "env \<Rightarrow> message \<Rightarrow> string option \<Rightarrow> bool \<Rightarrow> world \<Rightarrow> (string \<times> bool) \<times> world" where
  "quote_emotes e message' content_opt log_usage w =
     extract_emotes_impl e message' content_opt quote_predicate log_usage w"

section \<open>The event handlers\<close>

text \<open>
  \<^verbatim>\<open>on_message\<close>, lines 641 to 676. A handler returns the exception that leaves it
  (\<open>None\<close> when it returns normally) and the state it leaves behind. The call of
  \<^verbatim>\<open>channel.send\<close> is not guarded, so its exception leaves the handler.
\<close>

definition on_message :: "env \<Rightarrow> message \<Rightarrow> world \<Rightarrow> error option \<times> world" where
  "on_message e message' w =
     (if \<not> should_reply e message' then (None, w)
      else if context_valid e message' then (None, w)
      else if guild_id message' \<noteq> None \<and> \<not> external_emojis e message' then (None, w)
      else if \<not> get_state e (guild_id message') (author_id message') then (None, w)
      else if get_user_blacklist e (author_id message') \<noteq> None then (None, w)
      else
        (case extract_emotes e message' None True w of
           ((reply', has_emotes), w1) \<Rightarrow>
             if \<not> has_emotes then (None, w1)
             else
               (case channel_send e (channel_id message') reply' w1 of
                  (Inl err, w2) \<Rightarrow> (Some err, w2)
                | (Inr sent, w2) \<Rightarrow>
                    (None, w2\<lparr>replies := lru_setitem (replies w2) (message_id message') sent\<rparr>))))"

text \<open>
  The payload of a raw edit event: \<^verbatim>\<open>payload.message_id\<close> and what the code reads of
  \<^verbatim>\<open>payload.data\<close>; \<open>payload_content = None\<close> when \<^verbatim>\<open>'content'\<close> is not a key.
\<close>

record edit_payload =
  payload_message_id :: nat
  payload_channel_id :: nat
  payload_guild_id :: "nat option"
  payload_author_id :: nat
  payload_author_mention :: string
  payload_content :: "string option"

text \<open>\<^verbatim>\<open>discord.Message(state=..., channel=..., data=payload.data)\<close>, lines 684 to 687.\<close>

definition payload_message :: "edit_payload \<Rightarrow> string \<Rightarrow> message" where
  "payload_message payload c =
     \<lparr>message_id = payload_message_id payload,
      channel_id = payload_channel_id payload,
      guild_id = payload_guild_id payload,
      author_id = payload_author_id payload,
      author_mention = payload_author_mention payload,
      content = c\<rparr>"

text \<open>
  \<^verbatim>\<open>on_raw_message_edit\<close>, lines 678 to 698. Neither \<^verbatim>\<open>reply.delete()\<close> nor
  \<^verbatim>\<open>reply.edit(...)\<close> is guarded here: an exception of either leaves the handler.
\<close>

definition on_raw_message_edit :: "env \<Rightarrow> edit_payload \<Rightarrow> world \<Rightarrow> error option \<times> world" where
  "on_raw_message_edit e payload w =
     (if \<not> lru_contains (replies w) (payload_message_id payload) then (None, w)
      else
        (case payload_content payload of
           None \<Rightarrow> (None, w)
         | Some c \<Rightarrow>
             (case extract_emotes e (payload_message payload c) None False w of
                ((emotes, message_has_emotes), w1) \<Rightarrow>
                  (case lru_getitem (replies w1) (payload_message_id payload) of
                     Inl err \<Rightarrow> (Some err, w1)
                   | Inr (reply', d) \<Rightarrow>
                       let w2 = w1\<lparr>replies := d\<rparr> in
                       if \<not> message_has_emotes then
                         (case lru_delitem (replies w2) (payload_message_id payload) of
                            Inl err \<Rightarrow> (Some err, w2)
                          | Inr d' \<Rightarrow> reply_delete e reply' (w2\<lparr>replies := d'\<rparr>))
                       else if emotes = reply_content reply' then (None, w2)
                       else reply_edit e reply' emotes w2))))"

text \<open>
  \<^verbatim>\<open>delete_reply\<close>, lines 774 to 782: \<^verbatim>\<open>contextlib.suppress(discord.HTTPException)\<close>
  drops the exception of \<^verbatim>\<open>message.delete()\<close>.
\<close>

definition delete_reply :: "env \<Rightarrow> nat \<Rightarrow> world \<Rightarrow> error option \<times> world" where
  "delete_reply e mid w =
     (case lru_pop (replies w) mid of
        Inl err \<Rightarrow> (None, w)
      | Inr (message', d) \<Rightarrow>
          (case reply_delete e message' (w\<lparr>replies := d\<rparr>) of
             (Some HTTPException, w') \<Rightarrow> (None, w')
           | (res, w') \<Rightarrow> (res, w')))"

definition on_raw_message_delete :: "env \<Rightarrow> nat \<Rightarrow> world \<Rightarrow> error option \<times> world" where
  "on_raw_message_delete e mid w = delete_reply e mid w"

text \<open>
  \<^verbatim>\<open>on_raw_bulk_message_delete\<close>, lines 788 to 790: the loop over
  \<^verbatim>\<open>payload.message_ids\<close>, a set, here the list of its elements in the order of the
  iteration. An exception of \<^verbatim>\<open>delete_reply\<close> would end the loop.
\<close>

fun on_raw_bulk_message_delete :: "env \<Rightarrow> nat list \<Rightarrow> world \<Rightarrow> error option \<times> world" where
  "on_raw_bulk_message_delete e [] w = (None, w)"
| "on_raw_bulk_message_delete e (mid # rest) w =
     (case delete_reply e mid w of
        (Some err, w') \<Rightarrow> (Some err, w')
      | (None, w') \<Rightarrow> on_raw_bulk_message_delete e rest w')"

text \<open>
  The command \<^verbatim>\<open>quote\<close>, lines 139 to 153; \<open>context\<close> is \<^verbatim>\<open>context.message\<close>, whose
  author and channel are the context's, and \<open>message'\<close> the raw rest of the command.
  \<^verbatim>\<open>quote_emotes\<close> is called without \<^verbatim>\<open>log_usage\<close>, which defaults to \<^verbatim>\<open>False\<close>.
  In a private channel \<^verbatim>\<open>context.guild\<close> is \<^verbatim>\<open>None\<close> and \<^verbatim>\<open>context.guild.me\<close>
  raises \<^verbatim>\<open>AttributeError\<close>. Line 143 assigns \<^verbatim>\<open>message, _ = ...\<close>, which makes
  \<^verbatim>\<open>_\<close> a local name of the function bound to the boolean \<^verbatim>\<open>has_emotes\<close>; the call
  \<^verbatim>\<open>_('{context.author.mention} said:')\<close> on line 147 therefore applies a \<^verbatim>\<open>bool\<close>
  and raises \<^verbatim>\<open>TypeError\<close> before the original message is deleted or anything is
  sent.
\<close>

definition quote :: "env \<Rightarrow> message \<Rightarrow> string \<Rightarrow> world \<Rightarrow> error option \<times> world" where
  "quote e context message' w =
     (case quote_emotes e context (Some message') False w of
        ((quoted, has_emotes), w1) \<Rightarrow>
          if guild_id context = None then (Some AttributeError, w1)
          else if manage_messages e context then (Some TypeError, w1)
          else
            (case channel_send e (channel_id context) quoted w1 of
               (Inl err, w2) \<Rightarrow> (Some err, w2)
             | (Inr sent, w2) \<Rightarrow> (None, w2)))"

section \<open>What the spec says of the resolver\<close>

text \<open>
  The lookup the loop makes for a token: the name is the token's text without the
  delimiters at its ends.
\<close>

definition lookup :: "env \<Rightarrow> token \<Rightarrow> emote option" where
  "lookup e t = get_emote e (strip '':;'' (tok_value t))"

text \<open>
  The spec's resolver, token by token (section 4.2): a symbol token contributes the
  rendered form of its symbol, or its literal text when the lookup finds nothing; a
  token that is no symbol contributes its literal text in the quoting mode, and in the
  symbol-only mode only when it is a newline.
\<close>

definition spec_contribution :: "env \<Rightarrow> bool \<Rightarrow> token \<Rightarrow> string" where
  "spec_contribution e quoting t =
     (if tok_type t = ''EMOTE''
      then (case lookup e t of None \<Rightarrow> tok_value t | Some em \<Rightarrow> emote_str em)
      else if quoting \<or> (tok_type t = ''TEXT'' \<and> tok_value t = [CHR 0x0A]) then tok_value t
      else [])"

text \<open>The spec's output buffer: the contributions in the order of the tokens.\<close>

definition spec_output :: "env \<Rightarrow> bool \<Rightarrow> token list \<Rightarrow> string" where
  "spec_output e quoting toks = concat (map (spec_contribution e quoting) toks)"

text \<open>The spec's used-symbol set: the ids of the symbols that symbol tokens resolve to.\<close>

definition spec_used :: "env \<Rightarrow> token list \<Rightarrow> nat set" where
  "spec_used e toks =
     set (map emote_id
       (List.map_filter (\<lambda>t. if tok_type t = ''EMOTE'' then lookup e t else None) toks))"

text \<open>The predicate of either mode.\<close>

definition mode_predicate :: "bool \<Rightarrow> token \<Rightarrow> string \<Rightarrow> bool \<times> string" where
  "mode_predicate quoting = (if quoting then quote_predicate else extract_predicate)"

section \<open>Example inputs\<close>

text \<open>
  An emote database with two emotes, \<open>x\<close> and \<open>y\<close>, and the tokens of the lexer on
  the example messages; any other text is taken as one \<^verbatim>\<open>TEXT\<close> token.
\<close>

definition ex_db :: "string \<Rightarrow> emote option" where
  "ex_db name =
     (if name = ''x'' then Some \<lparr>emote_id = 1, emote_str = ''<:x:1>''\<rparr>
      else if name = ''y'' then Some \<lparr>emote_id = 2, emote_str = ''<:y:2>''\<rparr>
      else None)"

definition ex_lexer :: "string \<Rightarrow> token list" where
  "ex_lexer s =
     (if s = ''a :x: b :y: c'' then
        [\<lparr>tok_type = ''TEXT'', tok_value = ''a ''\<rparr>,
         \<lparr>tok_type = ''EMOTE'', tok_value = '':x:''\<rparr>,
         \<lparr>tok_type = ''TEXT'', tok_value = '' b ''\<rparr>,
         \<lparr>tok_type = ''EMOTE'', tok_value = '':y:''\<rparr>,
         \<lparr>tok_type = ''TEXT'', tok_value = '' c''\<rparr>]
      else if s = '':x: ;x; :y:'' then
        [\<lparr>tok_type = ''EMOTE'', tok_value = '':x:''\<rparr>,
         \<lparr>tok_type = ''TEXT'', tok_value = '' ''\<rparr>,
         \<lparr>tok_type = ''EMOTE'', tok_value = '';x;''\<rparr>,
         \<lparr>tok_type = ''TEXT'', tok_value = '' ''\<rparr>,
         \<lparr>tok_type = ''EMOTE'', tok_value = '':y:''\<rparr>]
      else if s = '':x:'' then [\<lparr>tok_type = ''EMOTE'', tok_value = '':x:''\<rparr>]
      else if s = '':unknown:'' then [\<lparr>tok_type = ''EMOTE'', tok_value = '':unknown:''\<rparr>]
      else [\<lparr>tok_type = ''TEXT'', tok_value = s\<rparr>])"

definition ex_env :: env where
  "ex_env =
     \<lparr>lexer = ex_lexer,
      get_emote = ex_db,
      clean_content = (\<lambda>m s. s),
      fix_first_line = (\<lambda>s. s),
      should_reply = (\<lambda>m. True),
      context_valid = (\<lambda>m. False),
      external_emojis = (\<lambda>m. True),
      get_state = (\<lambda>g u. True),
      get_user_blacklist = (\<lambda>u. None),
      manage_messages = (\<lambda>m. False),
      http_fails = (\<lambda>h c. False)\<rparr>"

text \<open>
  A message of user 7 in channel 5 of guild 9, and a state that tracks the replies 11,
  12 and 13 to the messages 1, 2 and 3.
\<close>

definition ex_message :: "string \<Rightarrow> message" where
  "ex_message c =
     \<lparr>message_id = 4, channel_id = 5, guild_id = Some 9, author_id = 7,
      author_mention = ''<@7>'', content = c\<rparr>"

definition ex_world :: world where
  "ex_world =
     \<lparr>replies = \<lparr>lru_size = 4096, lru_items =
        [(1, \<lparr>reply_id = 11, reply_content = ''<:x:1>''\<rparr>),
         (2, \<lparr>reply_id = 12, reply_content = ''<:y:2>''\<rparr>),
         (3, \<lparr>reply_id = 13, reply_content = ''<:x:1>''\<rparr>)]\<rparr>,
      calls = [], usage = []\<rparr>"

text \<open>An edit of message 1 to the given content.\<close>

definition ex_edit :: "string \<Rightarrow> edit_payload" where
  "ex_edit c =
     \<lparr>payload_message_id = 1, payload_channel_id = 5, payload_guild_id = Some 9,
      payload_author_id = 7, payload_author_mention = ''<@7>'', payload_content = Some c\<rparr>"

text \<open>The example environment when deleting reply 11 fails.\<close>

definition failing_env :: env where
  "failing_env = ex_env\<lparr>http_fails := (\<lambda>h c. c = Delete 11)\<rparr>"

text \<open>A state whose cache is bounded at two entries and is full.\<close>

definition small_world :: world where
  "small_world =
     \<lparr>replies = \<lparr>lru_size = 2, lru_items =
        [(1, \<lparr>reply_id = 11, reply_content = ''<:x:1>''\<rparr>),
         (2, \<lparr>reply_id = 12, reply_content = ''<:y:2>''\<rparr>)]\<rparr>,
      calls = [], usage = []\<rparr>"

section \<open>Properties of the extraction loop\<close>

lemma extract_loop_out:
  "fst (extract_loop e (mode_predicate q) toks (out, used)) = out @ spec_output e q toks"
  by (induction toks arbitrary: out used)
     (auto simp: spec_output_def spec_contribution_def mode_predicate_def lookup_def
        extract_predicate_def quote_predicate_def split: option.splits)

lemma set_add_set: "set (set_add x xs) = insert x (set xs)"
  by (auto simp: set_add_def)

lemma set_add_distinct: "distinct xs \<Longrightarrow> distinct (set_add x xs)"
  by (auto simp: set_add_def)

lemma extract_loop_used_set:
  "set (snd (extract_loop e (mode_predicate q) toks (out, used))) = set used \<union> spec_used e toks"
  by (induction toks arbitrary: out used)
     (auto simp: spec_used_def mode_predicate_def lookup_def set_add_set
        extract_predicate_def quote_predicate_def split: option.splits)

lemma extract_loop_used_distinct:
  "distinct used \<Longrightarrow> distinct (snd (extract_loop e (mode_predicate q) toks (out, used)))"
  by (induction toks arbitrary: out used)
     (auto simp: mode_predicate_def set_add_distinct
        extract_predicate_def quote_predicate_def split: option.splits)


lemma extract_result_eq:
  "extract_result e (mode_predicate q) c =
     (if spec_used e (lexer e c) \<noteq> {} then spec_output e q (lexer e c) else c,
      snd (extract_loop e (mode_predicate q) (lexer e c) ('''', [])))"
proof -
  obtain out used where l: "extract_loop e (mode_predicate q) (lexer e c) ('''', []) = (out, used)"
    by (cases "extract_loop e (mode_predicate q) (lexer e c) ('''', [])")
  have "out = spec_output e q (lexer e c)"
    using extract_loop_out [of e q "lexer e c" "''''" "[]"] l by simp
  moreover have "set used = spec_used e (lexer e c)"
    using extract_loop_used_set [of e q "lexer e c" "''''" "[]"] l by simp
  ultimately show ?thesis
    using l by (auto simp: extract_result_def)
qed

lemma spec_used_empty_iff:
  "spec_used e toks = {} \<longleftrightarrow> (\<forall>t\<in>set toks. tok_type t = ''EMOTE'' \<longrightarrow> lookup e t = None)"
  by (induction toks) (auto simp: spec_used_def split: option.splits)

lemma spec_output_append:
  "spec_output e q (xs @ ys) = spec_output e q xs @ spec_output e q ys"
  by (simp add: spec_output_def)

section \<open>C1: the output keeps the order of the tokens\<close>

text \<open>
  Claim C1. When every symbol token of the input resolves, the string the resolver
  builds (\<^verbatim>\<open>result\<close> on line 738) is the concatenation of the tokens' contributions
  in the order of the tokens, in the quoting mode (\<open>q = True\<close>) and in the symbol-only
  mode (\<open>q = False\<close>) alike; without any symbol token it is the content. What
  \<^verbatim>\<open>_extract_emotes\<close> returns is \<^verbatim>\<open>clean_content\<close> of that string. Wherever a symbol
  token stands in the token sequence, the rendered form of its symbol stands in the
  output between the contributions of the tokens before it and those of the tokens
  after it. The lookups are awaited one after the other inside the loop, so no order
  of completion other than the order of the tokens exists.
\<close>

theorem resolver_output_in_token_order:
  assumes "\<forall>t\<in>set (lexer e c). tok_type t = ''EMOTE'' \<longrightarrow> lookup e t \<noteq> None"
  shows "fst (extract_result e (mode_predicate q) c) =
           (if \<exists>t\<in>set (lexer e c). tok_type t = ''EMOTE''
            then spec_output e q (lexer e c) else c)
       \<and> fst (fst (extract_emotes_impl e m (Some c) (mode_predicate q) lg w)) =
           clean_content e m (fst (extract_result e (mode_predicate q) c))
       \<and> (\<forall>pre t post. lexer e c = pre @ t # post \<and> tok_type t = ''EMOTE'' \<longrightarrow>
            (\<exists>em. lookup e t = Some em \<and>
               fst (extract_result e (mode_predicate q) c) =
                 spec_output e q pre @ emote_str em @ spec_output e q post))"
proof -
  have used: "spec_used e (lexer e c) \<noteq> {} \<longleftrightarrow> (\<exists>t\<in>set (lexer e c). tok_type t = ''EMOTE'')"
    using assms by (auto simp: spec_used_empty_iff)
  have a: "fst (extract_result e (mode_predicate q) c) =
           (if \<exists>t\<in>set (lexer e c). tok_type t = ''EMOTE''
            then spec_output e q (lexer e c) else c)"
    using used by (simp add: extract_result_eq)
  have b: "fst (fst (extract_emotes_impl e m (Some c) (mode_predicate q) lg w)) =
           clean_content e m (fst (extract_result e (mode_predicate q) c))"
    by (simp add: extract_emotes_impl_def split: prod.splits)
  have c: "\<exists>em. lookup e t = Some em \<and>
               fst (extract_result e (mode_predicate q) c) =
                 spec_output e q pre @ emote_str em @ spec_output e q post"
    if l: "lexer e c = pre @ t # post" and t: "tok_type t = ''EMOTE''" for pre t post
  proof -
    have "t \<in> set (lexer e c)" using l by simp
    then obtain em where em: "lookup e t = Some em" using assms t by auto
    have "spec_output e q [t] = emote_str em"
      using t em by (simp add: spec_output_def spec_contribution_def)
    then have "spec_output e q (lexer e c) = spec_output e q pre @ emote_str em @ spec_output e q post"
      using spec_output_append [of e q pre "[t] @ post"] spec_output_append [of e q "[t]" post] l
      by simp
    moreover have "\<exists>t\<in>set (lexer e c). tok_type t = ''EMOTE''"
      using \<open>t \<in> set (lexer e c)\<close> t by blast
    ultimately show ?thesis using a em by simp
  qed
  show ?thesis using a b c by blast
qed

text \<open>
  The spec's example: \<^verbatim>\<open>a :x: b :y: c\<close> with \<open>x\<close> and \<open>y\<close> in the database.
\<close>

theorem resolver_output_in_token_order_witness:
  "fst (extract_result ex_env quote_predicate ''a :x: b :y: c'') = ''a <:x:1> b <:y:2> c''"
proof -
  have h: "\<forall>t\<in>set (lexer ex_env ''a :x: b :y: c''). tok_type t = ''EMOTE'' \<longrightarrow> lookup ex_env t \<noteq> None"
    by (simp add: ex_env_def ex_lexer_def lookup_def ex_db_def strip_def)
  show ?thesis
    using resolver_output_in_token_order [OF h, of True]
    by (simp add: mode_predicate_def ex_env_def ex_lexer_def spec_output_def
          spec_contribution_def lookup_def ex_db_def strip_def)
qed

section \<open>Effects of the usage log\<close>

lemma log_all_usage: "usage (log_all ids u w) = usage w @ map (\<lambda>x. (x, u)) ids"
  by (induction ids arbitrary: w) (simp_all add: log_emote_use_def)

lemma log_all_calls: "calls (log_all ids u w) = calls w"
  by (induction ids arbitrary: w) (simp_all add: log_emote_use_def)

lemma log_all_replies: "replies (log_all ids u w) = replies w"
  by (induction ids arbitrary: w) (simp_all add: log_emote_use_def)

lemma extract_result_unresolved:
  assumes "\<forall>t\<in>set (lexer e c). tok_type t = ''EMOTE'' \<longrightarrow> lookup e t = None"
  shows "extract_result e (mode_predicate q) c = (c, [])"
proof -
  have "spec_used e (lexer e c) = {}"
    using assms by (simp add: spec_used_empty_iff)
  moreover have "set (snd (extract_loop e (mode_predicate q) (lexer e c) ('''', []))) = {}"
    using extract_loop_used_set [of e q "lexer e c" "''''" "[]"] calculation by simp
  ultimately show ?thesis
    by (simp add: extract_result_eq)
qed

section \<open>C2: the output when no symbol resolves\<close>

text \<open>
  Claim C2. When no symbol token of the content resolves (there is none, or every
  lookup fails), the resolver's result (\<^verbatim>\<open>result\<close> on line 738) is the content
  itself, byte for byte, not the buffer rebuilt from the tokens, and the used set is
  empty; this holds in either mode. The extraction hands exactly this string to the
  outbound helper \<^verbatim>\<open>utils.clean_content\<close> (line 744), and \<^verbatim>\<open>extract_emotes\<close> hands
  that to \<^verbatim>\<open>utils.fix_first_line\<close>; where the helpers leave the content as it is,
  what the extraction returns is the content. The content is the argument
  \<^verbatim>\<open>content\<close>, or \<^verbatim>\<open>message.content\<close> when that is \<^verbatim>\<open>None\<close>. Nothing is logged.
\<close>

theorem no_resolution_returns_cleaned_content:
  assumes "c = (case copt of None \<Rightarrow> content m | Some c' \<Rightarrow> c')"
      and "\<forall>t\<in>set (lexer e c). tok_type t = ''EMOTE'' \<longrightarrow> lookup e t = None"
  shows "extract_result e (mode_predicate q) c = (c, [])
       \<and> extract_emotes_impl e m copt (mode_predicate q) lg w = ((clean_content e m c, False), w)
       \<and> quote_emotes e m copt lg w = ((clean_content e m c, False), w)
       \<and> extract_emotes e m copt lg w = ((fix_first_line e (clean_content e m c), False), w)
       \<and> (clean_content e m c = c \<longrightarrow> quote_emotes e m copt lg w = ((c, False), w))
       \<and> (clean_content e m c = c \<and> fix_first_line e c = c \<longrightarrow>
            extract_emotes e m copt lg w = ((c, False), w))"
proof -
  have r: "extract_result e (mode_predicate q) c = (c, [])" for q
    using assms(2) by (rule extract_result_unresolved)
  have i: "extract_emotes_impl e m copt (mode_predicate q) lg w = ((clean_content e m c, False), w)"
    for q
    using r [of q] assms(1) by (simp add: extract_emotes_impl_def)
  have "quote_emotes e m copt lg w = ((clean_content e m c, False), w)"
    using i [of True] by (simp add: quote_emotes_def mode_predicate_def)
  moreover have "extract_emotes e m copt lg w = ((fix_first_line e (clean_content e m c), False), w)"
    using i [of False] by (simp add: extract_emotes_def mode_predicate_def)
  ultimately show ?thesis using r i by simp
qed

text \<open>The input \<^verbatim>\<open>:unknown:\<close>, which the example database does not hold, quoted.\<close>

theorem no_resolution_returns_cleaned_content_witness:
  "quote_emotes ex_env (ex_message '':unknown:'') (Some '':unknown:'') False Emotes_init
     = (('':unknown:'', False), Emotes_init)"
proof -
  have c: "'':unknown:'' = (case Some '':unknown:'' of None \<Rightarrow> content (ex_message '':unknown:'')
                             | Some c' \<Rightarrow> c')"
    by simp
  have h: "\<forall>t\<in>set (lexer ex_env '':unknown:''). tok_type t = ''EMOTE'' \<longrightarrow> lookup ex_env t = None"
    by (simp add: ex_env_def ex_lexer_def lookup_def ex_db_def strip_def)
  show ?thesis
    using no_resolution_returns_cleaned_content [OF c h, of True False Emotes_init]
    by (simp add: ex_env_def)
qed

section \<open>The extraction functions as equations\<close>

lemma extract_emotes_impl_eq:
  "extract_emotes_impl e m copt p lg w =
     ((clean_content e m
         (fst (extract_result e p (case copt of None \<Rightarrow> content m | Some c \<Rightarrow> c))),
       snd (extract_result e p (case copt of None \<Rightarrow> content m | Some c \<Rightarrow> c)) \<noteq> []),
      (if lg then log_all (snd (extract_result e p (case copt of None \<Rightarrow> content m | Some c \<Rightarrow> c)))
                    (author_id m) w
       else w))"
  by (simp add: extract_emotes_impl_def Let_def split: prod.splits)

lemma extract_emotes_eq:
  "extract_emotes e m copt lg w =
     ((fix_first_line e (clean_content e m
         (fst (extract_result e extract_predicate (case copt of None \<Rightarrow> content m | Some c \<Rightarrow> c)))),
       snd (extract_result e extract_predicate (case copt of None \<Rightarrow> content m | Some c \<Rightarrow> c)) \<noteq> []),
      (if lg then log_all (snd (extract_result e extract_predicate
                                  (case copt of None \<Rightarrow> content m | Some c \<Rightarrow> c)))
                    (author_id m) w
       else w))"
  by (simp add: extract_emotes_def extract_emotes_impl_eq)

lemma extract_result_used:
  "set (snd (extract_result e (mode_predicate q) c)) = spec_used e (lexer e c)
   \<and> distinct (snd (extract_result e (mode_predicate q) c))"
  using extract_loop_used_set [of e q "lexer e c" "''''" "[]"]
        extract_loop_used_distinct [of "[]" e q "lexer e c" "''''"]
  by (simp add: extract_result_eq)


section \<open>C3: a symbol that is not found\<close>



section \<open>The usage log under the handlers\<close>

lemma count_list_tagged:
  "distinct ids \<Longrightarrow>
     count_list (map (\<lambda>x. (x, u)) ids) (x', u') = (if u' = u \<and> x' \<in> set ids then 1 else 0)"
  by (induction ids) auto

lemma count_list_app: "count_list (xs @ ys) a = count_list xs a + count_list ys a"
  by (induction xs) auto

lemma channel_send_usage: "usage (snd (channel_send e ch t w)) = usage w"
  by (simp add: channel_send_def Let_def)

lemma reply_delete_usage: "usage (snd (reply_delete e r w)) = usage w"
  by (simp add: reply_delete_def Let_def)

lemma reply_edit_usage: "usage (snd (reply_edit e r t w)) = usage w"
  by (simp add: reply_edit_def Let_def)

lemma on_raw_message_edit_usage: "usage (snd (on_raw_message_edit e p w)) = usage w"
  by (simp add: on_raw_message_edit_def extract_emotes_eq lru_getitem_def lru_delitem_def Let_def
        reply_delete_usage reply_edit_usage
      split: option.splits)

lemma on_message_usage:
  assumes "should_reply e m" and "\<not> context_valid e m"
      and "guild_id m = None \<or> external_emojis e m"
      and "get_state e (guild_id m) (author_id m)"
      and "get_user_blacklist e (author_id m) = None"
  shows "usage (snd (on_message e m w)) =
           usage w @ map (\<lambda>x. (x, author_id m)) (snd (extract_result e extract_predicate (content m)))"
  using assms
  by (auto simp: on_message_def extract_emotes_eq log_all_usage channel_send_def Let_def)

section \<open>C4: usage is logged once for each symbol, and only for a new message\<close>

text \<open>
  Claim C4. For a new message that passes the checks \<^verbatim>\<open>on_message\<close> makes before it
  extracts (the bot should reply, the message is no command, the bot may use external
  emojis, the auto-response is on for the author, the author is not blacklisted),
  \<^verbatim>\<open>db.log_emote_use(x, u)\<close> is called exactly once when \<open>u\<close> is the author and \<open>x\<close>
  the id of a symbol that a symbol token of the message resolves to, and not at all
  otherwise, however often the symbol occurs in the text. The handler of an edit
  never calls it.
\<close>

theorem usage_logged_once_per_symbol:
  assumes "should_reply e m" and "\<not> context_valid e m"
      and "guild_id m = None \<or> external_emojis e m"
      and "get_state e (guild_id m) (author_id m)"
      and "get_user_blacklist e (author_id m) = None"
  shows "count_list (usage (snd (on_message e m w))) (x, u) =
           count_list (usage w) (x, u)
           + (if u = author_id m \<and> x \<in> spec_used e (lexer e (content m)) then 1 else 0)
       \<and> usage (snd (on_raw_message_edit e p w')) = usage w'"
proof -
  have u: "set (snd (extract_result e extract_predicate (content m))) = spec_used e (lexer e (content m))"
    and d: "distinct (snd (extract_result e extract_predicate (content m)))"
    using extract_result_used [of e False "content m"] by (simp_all add: mode_predicate_def)
  have "count_list (usage (snd (on_message e m w))) (x, u) =
           count_list (usage w) (x, u)
           + (if u = author_id m \<and> x \<in> spec_used e (lexer e (content m)) then 1 else 0)"
    using on_message_usage [OF assms, of w] count_list_tagged [OF d, of "author_id m" x u] u
    by (simp add: count_list_app)
  then show ?thesis
    by (simp add: on_raw_message_edit_usage)
qed

text \<open>
  The message \<^verbatim>\<open>:x: ;x; :y:\<close> of user 7 names the emote \<open>x\<close> twice: one call for
  \<open>x\<close> (id 1), one for \<open>y\<close> (id 2); the edit of a tracked message to the same text
  logs nothing.
\<close>

theorem usage_logged_once_per_symbol_witness:
  "count_list (usage (snd (on_message ex_env (ex_message '':x: ;x; :y:'') ex_world))) (1, 7) = 1
   \<and> usage (snd (on_message ex_env (ex_message '':x: ;x; :y:'') ex_world)) = [(1, 7), (2, 7)]
   \<and> usage (snd (on_raw_message_edit ex_env (ex_edit '':x: ;x; :y:'') ex_world)) = []"
proof -
  have g: "should_reply ex_env (ex_message '':x: ;x; :y:'')"
    "\<not> context_valid ex_env (ex_message '':x: ;x; :y:'')"
    "guild_id (ex_message '':x: ;x; :y:'') = None \<or> external_emojis ex_env (ex_message '':x: ;x; :y:'')"
    "get_state ex_env (guild_id (ex_message '':x: ;x; :y:'')) (author_id (ex_message '':x: ;x; :y:''))"
    "get_user_blacklist ex_env (author_id (ex_message '':x: ;x; :y:'')) = None"
    by (simp_all add: ex_env_def)
  have s: "spec_used ex_env (lexer ex_env (content (ex_message '':x: ;x; :y:''))) = {1, 2}"
    by (auto simp: spec_used_def ex_env_def ex_lexer_def ex_message_def lookup_def ex_db_def strip_def)
  have "usage (snd (on_message ex_env (ex_message '':x: ;x; :y:'') ex_world)) = [(1, 7), (2, 7)]"
    by (simp add: on_message_def extract_emotes_eq extract_result_def ex_env_def ex_lexer_def
          ex_message_def ex_db_def strip_def extract_predicate_def set_add_def
          log_all_usage log_emote_use_def channel_send_def Let_def ex_world_def)
  then show ?thesis
    using usage_logged_once_per_symbol [OF g, of ex_world 1 7 "ex_edit '':x: ;x; :y:''" ex_world] s
    by (simp add: ex_message_def ex_world_def)
qed

section \<open>Lookups in the cache\<close>

lemma map_of_lru_remove:
  "map_of (lru_remove k xs) k' = (if k' = k then None else map_of xs k')"
  by (induction xs) (auto simp: lru_remove_def)

lemma map_of_refresh:
  assumes "map_of xs k = Some v"
  shows "map_of (lru_remove k xs @ [(k, v)]) = map_of xs"
proof
  fix k'
  show "map_of (lru_remove k xs @ [(k, v)]) k' = map_of xs k'"
    using assms by (simp add: map_add_def map_of_lru_remove split: option.splits)
qed

lemma lru_contains_iff: "lru_contains d k \<longleftrightarrow> map_of (lru_items d) k \<noteq> None"
  by (simp add: lru_contains_def map_of_eq_None_iff)

section \<open>C5: an edit that composes to the same reply\<close>

text \<open>
  Claim C5. The message of the edit event has a tracked reply \<open>r\<close>, the payload
  carries a content, and the extraction of the new content composes a reply (it finds
  emotes) whose text is the content of \<open>r\<close>. Then \<^verbatim>\<open>on_raw_message_edit\<close> returns
  normally without any outbound call (no edit, no delete), every key of the cache maps
  to what it mapped to before, the bound of the cache is the same, and nothing is
  logged. (The lookup \<^verbatim>\<open>self.replies[...]\<close> on line 690 is an access, which makes the
  entry the most recent one of the cache.)
\<close>

theorem edit_to_same_reply_is_skipped:
  assumes "map_of (lru_items (replies w)) (payload_message_id p) = Some r"
      and "payload_content p = Some c"
      and "fst (extract_emotes e (payload_message p c) None False w) = (reply_content r, True)"
  shows "fst (on_raw_message_edit e p w) = None
       \<and> calls (snd (on_raw_message_edit e p w)) = calls w
       \<and> map_of (lru_items (replies (snd (on_raw_message_edit e p w)))) = map_of (lru_items (replies w))
       \<and> lru_size (replies (snd (on_raw_message_edit e p w))) = lru_size (replies w)
       \<and> usage (snd (on_raw_message_edit e p w)) = usage w"
proof -
  have x: "extract_emotes e (payload_message p c) None False w = ((reply_content r, True), w)"
    using assms(3) by (simp add: extract_emotes_eq)
  have k: "lru_contains (replies w) (payload_message_id p)"
    using assms(1) by (simp add: lru_contains_iff)
  have "on_raw_message_edit e p w =
          (None, w\<lparr>replies := (replies w)\<lparr>lru_items :=
             lru_remove (payload_message_id p) (lru_items (replies w)) @ [(payload_message_id p, r)]\<rparr>\<rparr>)"
    using assms(1,2) k x by (simp add: on_raw_message_edit_def lru_getitem_def)
  then show ?thesis
    using map_of_refresh [OF assms(1)] by simp
qed

text \<open>
  Message 1, tracked with the reply \<^verbatim>\<open><:x:1>\<close>, is edited to \<^verbatim>\<open>:x:\<close>, which
  composes to the same reply.
\<close>

theorem edit_to_same_reply_is_skipped_witness:
  "fst (on_raw_message_edit ex_env (ex_edit '':x:'') ex_world) = None
   \<and> calls (snd (on_raw_message_edit ex_env (ex_edit '':x:'') ex_world)) = []
   \<and> map_of (lru_items (replies (snd (on_raw_message_edit ex_env (ex_edit '':x:'') ex_world)))) 1
       = Some \<lparr>reply_id = 11, reply_content = ''<:x:1>''\<rparr>"
proof -
  have a: "map_of (lru_items (replies ex_world)) (payload_message_id (ex_edit '':x:''))
             = Some \<lparr>reply_id = 11, reply_content = ''<:x:1>''\<rparr>"
    by (simp add: ex_world_def ex_edit_def)
  have b: "payload_content (ex_edit '':x:'') = Some '':x:''"
    by (simp add: ex_edit_def)
  have c: "fst (extract_emotes ex_env (payload_message (ex_edit '':x:'') '':x:'') None False ex_world)
             = (reply_content \<lparr>reply_id = 11, reply_content = ''<:x:1>''\<rparr>, True)"
    by (simp add: extract_emotes_eq extract_result_def payload_message_def ex_env_def ex_lexer_def
          extract_predicate_def ex_db_def strip_def set_add_def)
  show ?thesis
    using edit_to_same_reply_is_skipped [OF a b c]
    by (simp add: ex_world_def)
qed

section \<open>C6: an edit that removes the emotes\<close>

lemma edit_without_emotes:
  assumes "map_of (lru_items (replies w)) (payload_message_id p) = Some r"
      and "payload_content p = Some c"
      and "\<not> snd (fst (extract_emotes e (payload_message p c) None False w))"
  shows "on_raw_message_edit e p w =
           ((if http_fails e (calls w) (Delete (reply_id r)) then Some HTTPException else None),
            w\<lparr>replies := (replies w)\<lparr>lru_items :=
                 lru_remove (payload_message_id p) (lru_items (replies w))\<rparr>,
              calls := calls w @ [Delete (reply_id r)]\<rparr>)"
proof -
  have k: "lru_contains (replies w) (payload_message_id p)"
    using assms(1) by (simp add: lru_contains_iff)
  have n: "snd (extract_result e extract_predicate c) = []"
    using assms(3) by (simp add: extract_emotes_eq payload_message_def)
  have f: "lru_remove (payload_message_id p)
             (lru_remove (payload_message_id p) (lru_items (replies w)) @ [(payload_message_id p, r)])
           = lru_remove (payload_message_id p) (lru_items (replies w))"
    by (simp add: lru_remove_def)
  show ?thesis
    using assms(1,2) k n f
    by (simp add: on_raw_message_edit_def extract_emotes_eq payload_message_def lru_getitem_def
          lru_delitem_def lru_contains_def reply_delete_def Let_def)
qed

text \<open>
  Claim C6 holds except for the failure of the delete call. Message 1 is tracked with
  reply 11 and is edited to a text without emotes, and deleting reply 11 fails:
  \<^verbatim>\<open>on_raw_message_edit\<close> removes the entry and attempts the one delete call, but its
  \<^verbatim>\<open>return await reply.delete()\<close> on line 693 is not guarded, so the
  \<^verbatim>\<open>HTTPException\<close> leaves the handler. \<^verbatim>\<open>delete_reply\<close> (line 781) guards the same
  call with \<^verbatim>\<open>contextlib.suppress(discord.HTTPException)\<close>: from the same state the
  deletion of message 1 ends in the same state and returns normally.
\<close>

theorem edit_without_emotes_delete_failure_escapes:
  "on_raw_message_edit failing_env (ex_edit ''hello'') ex_world =
     (Some HTTPException,
      \<lparr>replies = \<lparr>lru_size = 4096, lru_items =
         [(2, \<lparr>reply_id = 12, reply_content = ''<:y:2>''\<rparr>),
          (3, \<lparr>reply_id = 13, reply_content = ''<:x:1>''\<rparr>)]\<rparr>,
       calls = [Delete 11], usage = []\<rparr>)
   \<and> on_raw_message_delete failing_env 1 ex_world =
     (None,
      \<lparr>replies = \<lparr>lru_size = 4096, lru_items =
         [(2, \<lparr>reply_id = 12, reply_content = ''<:y:2>''\<rparr>),
          (3, \<lparr>reply_id = 13, reply_content = ''<:x:1>''\<rparr>)]\<rparr>,
       calls = [Delete 11], usage = []\<rparr>)"
  by (simp add: on_raw_message_edit_def on_raw_message_delete_def delete_reply_def lru_pop_def
        extract_emotes_eq extract_result_def payload_message_def lru_getitem_def
        lru_delitem_def lru_contains_def lru_remove_def reply_delete_def Let_def
        failing_env_def ex_env_def ex_lexer_def ex_edit_def ex_world_def extract_predicate_def)

section \<open>C7: deleting one message, deleting many\<close>

lemma delete_reply_eq:
  "delete_reply e k w =
     (None,
      (case map_of (lru_items (replies w)) k of
         None \<Rightarrow> w
       | Some r \<Rightarrow> w\<lparr>replies := (replies w)\<lparr>lru_items := lru_remove k (lru_items (replies w))\<rparr>,
                     calls := calls w @ [Delete (reply_id r)]\<rparr>))"
  by (simp add: delete_reply_def lru_pop_def reply_delete_def Let_def split: option.splits)

lemma bulk_delete_eq:
  "on_raw_bulk_message_delete e mids w =
     (None, fold (\<lambda>k w'. snd (on_raw_message_delete e k w')) mids w)"
  by (induction mids arbitrary: w) (simp_all add: on_raw_message_delete_def delete_reply_eq)

lemma delete_reply_lookup:
  "map_of (lru_items (replies (snd (delete_reply e k w)))) k' =
     (if k' = k then None else map_of (lru_items (replies w)) k')"
  by (auto simp: delete_reply_eq map_of_lru_remove split: option.splits)

lemma delete_reply_calls:
  "calls (snd (delete_reply e k w)) =
     calls w @ map (\<lambda>r. Delete (reply_id r)) (List.map_filter (map_of (lru_items (replies w))) [k])"
  by (simp add: delete_reply_eq split: option.splits)

lemma delete_reply_frame:
  "usage (snd (delete_reply e k w)) = usage w
   \<and> lru_size (replies (snd (delete_reply e k w))) = lru_size (replies w)"
  by (simp add: delete_reply_eq split: option.splits)

lemma map_filter_cong_set:
  "\<forall>x\<in>set xs. f x = g x \<Longrightarrow> List.map_filter f xs = List.map_filter g xs"
  by (induction xs) (auto split: option.splits)

lemma bulk_delete_effect:
  "distinct mids \<Longrightarrow>
     (\<forall>k. map_of (lru_items (replies (snd (on_raw_bulk_message_delete e mids w)))) k =
            (if k \<in> set mids then None else map_of (lru_items (replies w)) k))
   \<and> calls (snd (on_raw_bulk_message_delete e mids w)) =
       calls w @ map (\<lambda>r. Delete (reply_id r))
                   (List.map_filter (map_of (lru_items (replies w))) mids)
   \<and> usage (snd (on_raw_bulk_message_delete e mids w)) = usage w
   \<and> lru_size (replies (snd (on_raw_bulk_message_delete e mids w))) = lru_size (replies w)"
proof (induction mids arbitrary: w)
  case Nil
  then show ?case by simp
next
  case (Cons k rest)
  let ?w = "snd (delete_reply e k w)"
  have step: "on_raw_bulk_message_delete e (k # rest) w = on_raw_bulk_message_delete e rest ?w"
    by (simp add: delete_reply_eq)
  have ih: "(\<forall>k'. map_of (lru_items (replies (snd (on_raw_bulk_message_delete e rest ?w)))) k' =
            (if k' \<in> set rest then None else map_of (lru_items (replies ?w)) k'))
   \<and> calls (snd (on_raw_bulk_message_delete e rest ?w)) =
       calls ?w @ map (\<lambda>r. Delete (reply_id r))
                   (List.map_filter (map_of (lru_items (replies ?w))) rest)
   \<and> usage (snd (on_raw_bulk_message_delete e rest ?w)) = usage ?w
   \<and> lru_size (replies (snd (on_raw_bulk_message_delete e rest ?w))) = lru_size (replies ?w)"
    using Cons.IH [of ?w] Cons.prems by simp
  have same: "List.map_filter (map_of (lru_items (replies ?w))) rest
                = List.map_filter (map_of (lru_items (replies w))) rest"
    using Cons.prems by (intro map_filter_cong_set) (auto simp: delete_reply_lookup)
  have split: "List.map_filter (map_of (lru_items (replies w))) (k # rest)
                = List.map_filter (map_of (lru_items (replies w))) [k]
                  @ List.map_filter (map_of (lru_items (replies w))) rest"
    by (simp split: option.splits)
  show ?case
    unfolding step
    using ih same split delete_reply_calls [of e k w] delete_reply_frame [of e k w]
    by (auto simp: delete_reply_lookup)
qed

text \<open>
  Claim C7. For the ids of a bulk-delete event (a set, so no id twice), in whatever
  order the loop takes them: the handler returns normally, whichever delete calls
  fail; its final state is that of handling the single deletions one after the other;
  a single deletion never raises, and does nothing for an id without an entry;
  afterwards no id of the batch has an entry and every other id maps to what it mapped
  to before; the outbound calls made are one delete call for the reply of each id of
  the batch that had an entry, in the order of the loop, and nothing else; nothing is
  logged and the bound of the cache is the same.
\<close>

theorem bulk_delete_is_sequential_and_best_effort:
  assumes "distinct mids"
  shows "fst (on_raw_bulk_message_delete e mids w) = None
       \<and> snd (on_raw_bulk_message_delete e mids w)
           = fold (\<lambda>k w'. snd (on_raw_message_delete e k w')) mids w
       \<and> (\<forall>k. fst (on_raw_message_delete e k w) = None)
       \<and> (\<forall>k. map_of (lru_items (replies w)) k = None \<longrightarrow> on_raw_message_delete e k w = (None, w))
       \<and> (\<forall>k. map_of (lru_items (replies (snd (on_raw_bulk_message_delete e mids w)))) k =
              (if k \<in> set mids then None else map_of (lru_items (replies w)) k))
       \<and> calls (snd (on_raw_bulk_message_delete e mids w)) =
           calls w @ map (\<lambda>r. Delete (reply_id r))
                       (List.map_filter (map_of (lru_items (replies w))) mids)
       \<and> usage (snd (on_raw_bulk_message_delete e mids w)) = usage w
       \<and> lru_size (replies (snd (on_raw_bulk_message_delete e mids w))) = lru_size (replies w)"
  using bulk_delete_effect [OF assms, of e w]
  by (simp add: bulk_delete_eq on_raw_message_delete_def delete_reply_eq)

text \<open>
  The spec's example: the cache tracks the messages 1, 2 and 3, the event deletes 1
  and 2, and deleting the reply to 1 fails. Both entries are gone, both delete calls
  were attempted, the entry of 3 is as it was.
\<close>

theorem bulk_delete_is_sequential_and_best_effort_witness:
  "on_raw_bulk_message_delete failing_env [1, 2] ex_world =
     (None,
      \<lparr>replies = \<lparr>lru_size = 4096, lru_items =
         [(3, \<lparr>reply_id = 13, reply_content = ''<:x:1>''\<rparr>)]\<rparr>,
       calls = [Delete 11, Delete 12], usage = []\<rparr>)"
proof -
  have d: "distinct [1, 2 :: nat]" by simp
  have "on_raw_bulk_message_delete failing_env [1, 2] ex_world
          = (None, fold (\<lambda>k w'. snd (on_raw_message_delete failing_env k w')) [1, 2] ex_world)"
    using bulk_delete_is_sequential_and_best_effort [OF d, of failing_env ex_world]
    by (simp add: prod_eq_iff)
  then show ?thesis
    by (simp add: on_raw_message_delete_def delete_reply_eq lru_remove_def ex_world_def)
qed

section \<open>C8: the bound of the cache and the order of eviction\<close>

lemma length_lru_remove:
  "k \<in> set (map fst xs) \<Longrightarrow> Suc (length (lru_remove k xs)) \<le> length xs"
  by (induction xs) (auto simp: lru_remove_def le_SucI)

lemma on_message_no_delete:
  "count_list (calls (snd (on_message e m w))) (Delete r) = count_list (calls w) (Delete r)"
  by (simp add: on_message_def extract_emotes_eq channel_send_def Let_def log_all_calls
        count_list_app)

lemma last_used_snoc:
  "last_used k (ops @ [op]) = (if touches k op then Suc (length ops) else last_used k ops)"
  by (simp add: last_used_def)

lemma last_used_rev_le: "last_used_rev k ops \<le> length ops"
  by (induction ops) auto

lemma last_used_le: "last_used k ops \<le> length ops"
  using last_used_rev_le [of k "rev ops"] by (simp add: last_used_def)

lemma lru_run_snoc: "lru_run n (ops @ [op]) = lru_apply (lru_run n ops) op"
  by (simp add: lru_run_def)

lemma distinct_lru_remove: "distinct (map fst xs) \<Longrightarrow> distinct (map fst (lru_remove k xs))"
  by (simp add: lru_remove_def distinct_map_filter)

lemma keys_lru_remove: "fst ` set (lru_remove k xs) = fst ` set xs - {k}"
  by (auto simp: lru_remove_def)

lemma by_last_use_touch:
  assumes "touches k op" and "by_last_use ops ys" and "k \<notin> fst ` set ys"
  shows "by_last_use (ops @ [op]) (ys @ [(k, v)])"
proof -
  have other: "last_used k' (ops @ [op]) = last_used k' ops" if "k' \<in> fst ` set ys" for k'
  proof -
    have "k' \<noteq> k" using that assms(3) by auto
    then have "\<not> touches k' op" using assms(1) by (cases op) auto
    then show ?thesis by (simp add: last_used_snoc)
  qed
  have "sorted_wrt (\<lambda>p q. last_used (fst p) (ops @ [op]) < last_used (fst q) (ops @ [op])) ys"
    using assms(2) unfolding by_last_use_def
    by (rule sorted_wrt_mono_rel [rotated]) (auto simp: other)
  moreover have "last_used (fst p) (ops @ [op]) < last_used k (ops @ [op])" if "p \<in> set ys" for p
    using that other [of "fst p"] last_used_le [of "fst p" ops] assms(1)
    by (simp add: last_used_snoc)
  ultimately show ?thesis
    by (auto simp: by_last_use_def sorted_wrt_append)
qed

lemma by_last_use_untouched:
  assumes "\<forall>p\<in>set xs. \<not> touches (fst p) op" and "by_last_use ops xs"
  shows "by_last_use (ops @ [op]) xs"
  using assms(2) unfolding by_last_use_def
  by (rule sorted_wrt_mono_rel [rotated]) (use assms(1) in \<open>auto simp: last_used_snoc\<close>)

lemma by_last_use_remove: "by_last_use ops xs \<Longrightarrow> by_last_use ops (lru_remove k xs)"
  by (simp add: by_last_use_def lru_remove_def sorted_wrt_filter)

lemma by_last_use_drop: "by_last_use ops xs \<Longrightarrow> by_last_use ops (drop i xs)"
  by (simp add: by_last_use_def sorted_wrt_drop)

lemma cache_ok_refresh:
  assumes "cache_ok n ops d" and "touches k op" and "k \<in> fst ` set (lru_items d)"
  shows "cache_ok n (ops @ [op]) (d\<lparr>lru_items := lru_remove k (lru_items d) @ [(k, v)]\<rparr>)"
proof -
  have "Suc (length (lru_remove k (lru_items d))) \<le> length (lru_items d)"
    using assms(3) by (intro length_lru_remove) simp
  moreover have "by_last_use (ops @ [op]) (lru_remove k (lru_items d) @ [(k, v)])"
    using assms(1,2) by (intro by_last_use_touch by_last_use_remove)
                        (auto simp: cache_ok_def keys_lru_remove)
  ultimately show ?thesis
    using assms(1) by (auto simp: cache_ok_def distinct_lru_remove keys_lru_remove)
qed

lemma cache_ok_step:
  assumes "0 < n" and "cache_ok n ops d"
  shows "cache_ok n (ops @ [op]) (lru_apply d op)"
proof (cases op)
  case (Insert k v)
  show ?thesis
  proof (cases "lru_contains d k")
    case True
    then show ?thesis
      using cache_ok_refresh [OF assms(2), of k op v] Insert
      by (simp add: lru_setitem_def lru_contains_def)
  next
    case False
    have t: "touches k op" using Insert by simp
    show ?thesis
    proof (cases "lru_size d \<le> length (lru_items d)")
      case True
      have k: "k \<notin> fst ` set (drop 1 (lru_items d))"
        using False set_drop_subset [of 1 "lru_items d"] by (auto simp: lru_contains_def)
      have "by_last_use (ops @ [op]) (drop 1 (lru_items d) @ [(k, v)])"
        using assms(2) k by (intro by_last_use_touch [OF t] by_last_use_drop)
                            (auto simp: cache_ok_def)
      moreover have "distinct (map fst (drop 1 (lru_items d)))"
        using assms(2) by (simp add: cache_ok_def distinct_drop flip: drop_map)
      ultimately show ?thesis
        using assms True False Insert k
        by (auto simp: cache_ok_def lru_setitem_def)
    next
      case full: False
      have "by_last_use (ops @ [op]) (lru_items d @ [(k, v)])"
        using assms(2) False by (intro by_last_use_touch [OF t])
                                (auto simp: cache_ok_def lru_contains_def)
      then show ?thesis
        using assms full False Insert
        by (auto simp: cache_ok_def lru_setitem_def lru_contains_def)
    qed
  qed
next
  case (Access k)
  show ?thesis
  proof (cases "map_of (lru_items d) k")
    case None
    then have "\<forall>p\<in>set (lru_items d). \<not> touches (fst p) op"
      using Access by (auto simp: map_of_eq_None_iff)
    then show ?thesis
      using assms(2) None Access by_last_use_untouched [where xs = "lru_items d" and op = op and ops = ops]
      by (simp add: cache_ok_def lru_getitem_def)
  next
    case (Some v)
    then have "k \<in> fst ` set (lru_items d)"
      by (metis map_of_eq_None_iff option.distinct(1))
    then show ?thesis
      using cache_ok_refresh [OF assms(2), of k op v] Some Access
      by (simp add: lru_getitem_def)
  qed
next
  case (Remove k)
  have u: "\<forall>p\<in>set xs. \<not> touches (fst p) op" for xs :: "('a \<times> 'b) list"
    using Remove by simp
  show ?thesis
  proof (cases "lru_contains d k")
    case True
    have "length (lru_remove k (lru_items d)) \<le> length (lru_items d)"
      by (simp add: lru_remove_def)
    then show ?thesis
      using assms(2) True Remove u
        by_last_use_untouched [where xs = "lru_remove k (lru_items d)" and op = op and ops = ops]
      by (auto simp: cache_ok_def lru_delitem_def distinct_lru_remove by_last_use_remove)
  next
    case False
    then show ?thesis
      using assms(2) Remove u by_last_use_untouched [where xs = "lru_items d" and op = op and ops = ops]
      by (simp add: cache_ok_def lru_delitem_def)
  qed
qed

lemma cache_ok_run: "0 < n \<Longrightarrow> cache_ok n ops (lru_run n ops)"
proof (induction ops rule: rev_induct)
  case Nil
  then show ?case
    by (simp add: cache_ok_def lru_run_def LRUDict_init_def by_last_use_def)
next
  case (snoc op ops)
  then show ?case
    using cache_ok_step [of n ops "lru_run n ops" op] by (simp add: lru_run_snoc)
qed

lemma on_message_replies:
  "replies (snd (on_message e m w)) = replies w
   \<or> replies (snd (on_message e m w)) =
       lru_setitem (replies w) (message_id m)
         \<lparr>reply_id = length (calls w),
          reply_content = fix_first_line e (clean_content e m
            (fst (extract_result e extract_predicate (content m))))\<rparr>"
  by (simp add: on_message_def extract_emotes_eq channel_send_def Let_def log_all_replies
        log_all_calls)

text \<open>
  Claim C8, on the cache as the spec describes it. Take any history of insertions,
  accesses and removals on the empty cache bounded at \<open>n > 0\<close>. The cache holds at
  most \<open>n\<close> entries, before and after a further insertion. An insertion under a new
  key into the full cache drops exactly one entry, the one at the front, and the key of
  that entry was last inserted or accessed earlier in the history than the key of every
  entry that stays; the new entry goes to the back. Any other insertion drops no key.
  An access is the next operation of the history and counts as the latest use of its
  key. \<^verbatim>\<open>on_message\<close>, the one place that inserts (line 676), leaves the cache as it
  is or extends the history by that insertion, and attempts no delete call, so an
  eviction never deletes a reply. \<^verbatim>\<open>Emotes.__init__\<close> starts with the empty history
  on a cache bounded at \<open>1024**2//256 = 4096\<close> entries.
\<close>

theorem cache_bounded_evicts_oldest_without_delete:
  assumes "0 < n" and "replies w = lru_run n ops"
  shows "lru_size (replies w) = n \<and> length (lru_items (replies w)) \<le> n
       \<and> length (lru_items (lru_setitem (replies w) k v)) \<le> n
       \<and> (length (lru_items (replies w)) = n \<and> \<not> lru_contains (replies w) k \<longrightarrow>
            (\<exists>k0 v0 rest. lru_items (replies w) = (k0, v0) # rest
               \<and> lru_items (lru_setitem (replies w) k v) = rest @ [(k, v)]
               \<and> (\<forall>p\<in>set rest. last_used k0 ops < last_used (fst p) ops)))
       \<and> (length (lru_items (replies w)) < n \<or> lru_contains (replies w) k \<longrightarrow>
            fst ` set (lru_items (lru_setitem (replies w) k v))
              = insert k (fst ` set (lru_items (replies w))))
       \<and> (\<forall>v' d'. lru_getitem (replies w) k = Inr (v', d') \<longrightarrow>
            d' = lru_run n (ops @ [Access k])
            \<and> last_used k (ops @ [Access k :: (nat, reply) cache_op]) = Suc (length ops))
       \<and> (replies (snd (on_message e m w)) = lru_run n ops
          \<or> (\<exists>r. replies (snd (on_message e m w)) = lru_run n (ops @ [Insert (message_id m) r])))
       \<and> (\<forall>r. count_list (calls (snd (on_message e m w))) (Delete r) = count_list (calls w) (Delete r))
       \<and> replies Emotes_init = lru_run 4096 []"
proof -
  have ok: "cache_ok n ops (replies w)"
    using cache_ok_run [OF assms(1), of ops] assms(2) by simp
  have ok': "cache_ok n (ops @ [Insert k v]) (lru_setitem (replies w) k v)"
    using cache_ok_step [OF assms(1) ok, of "Insert k v"] by simp
  have bound: "lru_size (replies w) = n \<and> length (lru_items (replies w)) \<le> n
       \<and> length (lru_items (lru_setitem (replies w) k v)) \<le> n"
    using ok ok' by (simp add: cache_ok_def)
  have evict: "\<exists>k0 v0 rest. lru_items (replies w) = (k0, v0) # rest
               \<and> lru_items (lru_setitem (replies w) k v) = rest @ [(k, v)]
               \<and> (\<forall>p\<in>set rest. last_used k0 ops < last_used (fst p) ops)"
    if full: "length (lru_items (replies w)) = n" and new: "\<not> lru_contains (replies w) k"
  proof -
    obtain k0 v0 rest where items: "lru_items (replies w) = (k0, v0) # rest"
      using full assms(1) by (cases "lru_items (replies w)") auto
    have "lru_items (lru_setitem (replies w) k v) = rest @ [(k, v)]"
      using full new items ok by (simp add: lru_setitem_def cache_ok_def)
    moreover have "\<forall>p\<in>set rest. last_used k0 ops < last_used (fst p) ops"
      using ok items by (simp add: cache_ok_def by_last_use_def)
    ultimately show ?thesis using items by blast
  qed
  have keep: "fst ` set (lru_items (lru_setitem (replies w) k v))
              = insert k (fst ` set (lru_items (replies w)))"
    if "length (lru_items (replies w)) < n \<or> lru_contains (replies w) k"
    using that ok
    by (auto simp: lru_setitem_def cache_ok_def keys_lru_remove lru_contains_def)
  have access: "d' = lru_run n (ops @ [Access k])
            \<and> last_used k (ops @ [Access k :: (nat, reply) cache_op]) = Suc (length ops)"
    if "lru_getitem (replies w) k = Inr (v', d')" for v' d'
    using that assms(2) by (simp add: lru_run_snoc last_used_snoc)
  have msg: "replies (snd (on_message e m w)) = lru_run n ops
          \<or> (\<exists>r. replies (snd (on_message e m w)) = lru_run n (ops @ [Insert (message_id m) r]))"
    using on_message_replies [of e m w] assms(2) by (auto simp: lru_run_snoc)
  have init: "replies Emotes_init = lru_run 4096 []"
    by (simp add: Emotes_init_def lru_run_def)
  show ?thesis
    using bound evict keep access msg init on_message_no_delete [of e m w] by blast
qed

text \<open>
  A cache bounded at two entries tracks the messages 1 and 2, inserted in this order.
  An edit of message 1 that composes to the same reply accesses its entry (line 690).
  A new message 4 with an emote is then answered: the entry dropped is that of message
  2, not that of message 1, which was inserted first but used last; the only outbound
  call is the one that sends the reply.
\<close>

theorem cache_bounded_evicts_oldest_without_delete_witness:
  "lru_items (replies (snd (on_raw_message_edit ex_env (ex_edit '':x:'') small_world)))
     = [(2, \<lparr>reply_id = 12, reply_content = ''<:y:2>''\<rparr>),
        (1, \<lparr>reply_id = 11, reply_content = ''<:x:1>''\<rparr>)]
   \<and> lru_items (lru_setitem (replies (snd (on_raw_message_edit ex_env (ex_edit '':x:'') small_world)))
        4 \<lparr>reply_id = 0, reply_content = ''<:x:1>''\<rparr>)
     = [(1, \<lparr>reply_id = 11, reply_content = ''<:x:1>''\<rparr>),
        (4, \<lparr>reply_id = 0, reply_content = ''<:x:1>''\<rparr>)]
   \<and> snd (on_message ex_env (ex_message '':x:'')
        (snd (on_raw_message_edit ex_env (ex_edit '':x:'') small_world))) =
       \<lparr>replies = \<lparr>lru_size = 2, lru_items =
          [(1, \<lparr>reply_id = 11, reply_content = ''<:x:1>''\<rparr>),
           (4, \<lparr>reply_id = 0, reply_content = ''<:x:1>''\<rparr>)]\<rparr>,
        calls = [Send 5 ''<:x:1>''], usage = [(1, 7)]\<rparr>"
proof -
  let ?w = "snd (on_raw_message_edit ex_env (ex_edit '':x:'') small_world)"
  let ?ops = "[Insert 1 \<lparr>reply_id = 11, reply_content = ''<:x:1>''\<rparr>,
               Insert 2 \<lparr>reply_id = 12, reply_content = ''<:y:2>''\<rparr>,
               Access 1] :: (nat, reply) cache_op list"
  have w: "?w = \<lparr>replies = \<lparr>lru_size = 2, lru_items =
                  [(2, \<lparr>reply_id = 12, reply_content = ''<:y:2>''\<rparr>),
                   (1, \<lparr>reply_id = 11, reply_content = ''<:x:1>''\<rparr>)]\<rparr>,
                calls = [], usage = []\<rparr>"
    by (simp add: on_raw_message_edit_def extract_emotes_eq extract_result_def payload_message_def
          lru_getitem_def lru_contains_def lru_remove_def ex_env_def ex_lexer_def ex_edit_def
          small_world_def extract_predicate_def ex_db_def strip_def set_add_def)
  have n: "0 < (2 :: nat)" by simp
  have r: "replies ?w = lru_run 2 ?ops"
    by (simp add: w lru_run_def LRUDict_init_def lru_setitem_def lru_getitem_def lru_contains_def
          lru_remove_def)
  have c: "length (lru_items (replies ?w)) = 2 \<and> \<not> lru_contains (replies ?w) 4"
    by (simp add: w lru_contains_def)
  obtain k0 v0 rest where
    "lru_items (replies ?w) = (k0, v0) # rest"
    "lru_items (lru_setitem (replies ?w) 4 \<lparr>reply_id = 0, reply_content = ''<:x:1>''\<rparr>)
       = rest @ [(4, \<lparr>reply_id = 0, reply_content = ''<:x:1>''\<rparr>)]"
    using cache_bounded_evicts_oldest_without_delete [OF n r, of 4] c by blast
  then have "lru_items (lru_setitem (replies ?w) 4 \<lparr>reply_id = 0, reply_content = ''<:x:1>''\<rparr>)
     = [(1, \<lparr>reply_id = 11, reply_content = ''<:x:1>''\<rparr>),
        (4, \<lparr>reply_id = 0, reply_content = ''<:x:1>''\<rparr>)]"
    by (simp add: w)
  moreover have "snd (on_message ex_env (ex_message '':x:'') ?w) =
       \<lparr>replies = \<lparr>lru_size = 2, lru_items =
          [(1, \<lparr>reply_id = 11, reply_content = ''<:x:1>''\<rparr>),
           (4, \<lparr>reply_id = 0, reply_content = ''<:x:1>''\<rparr>)]\<rparr>,
        calls = [Send 5 ''<:x:1>''], usage = [(1, 7)]\<rparr>"
    unfolding w
    by (simp add: on_message_def extract_emotes_eq extract_result_def ex_env_def ex_lexer_def
          ex_message_def ex_db_def strip_def extract_predicate_def set_add_def
          log_emote_use_def channel_send_def Let_def lru_setitem_def lru_contains_def)
  ultimately show ?thesis
    by (simp add: w)
qed

section \<open>C9 and C10: the command quote\<close>

lemma quote_emotes_eq:
  "quote_emotes e m (Some c) False w =
     ((clean_content e m (fst (extract_result e quote_predicate c)),
       snd (extract_result e quote_predicate c) \<noteq> []), w)"
  by (simp add: quote_emotes_def extract_emotes_impl_eq)

lemma quote_without_permission:
  assumes "guild_id ctx \<noteq> None" and "\<not> manage_messages e ctx"
  shows "quote e ctx msg w =
           ((if http_fails e (calls w)
                  (Send (channel_id ctx) (clean_content e ctx (fst (extract_result e quote_predicate msg))))
             then Some HTTPException else None),
            w\<lparr>calls := calls w @
                 [Send (channel_id ctx) (clean_content e ctx (fst (extract_result e quote_predicate msg)))]\<rparr>)"
  using assms by (simp add: quote_def quote_emotes_eq channel_send_def Let_def)

lemma quote_with_permission_raises:
  assumes "guild_id ctx \<noteq> None" and "manage_messages e ctx"
  shows "quote e ctx msg w = (Some TypeError, w)"
  using assms by (simp add: quote_def quote_emotes_eq)

text \<open>
  Claim C9, as amended. In a guild channel where the bot does not hold the permission
  to manage messages, \<^verbatim>\<open>quote\<close> makes exactly one outbound call: it sends, to the
  channel of the command, \<^verbatim>\<open>clean_content\<close> of the quoted body and nothing before
  it. The body is the concatenation, in the order of the tokens, of the rendered form
  of every symbol token that resolves and of the literal text of every other token;
  when no symbol token resolves it is the raw text of the command. The cache and the
  usage log are as before.
\<close>

theorem quote_posts_body_without_attribution:
  assumes "guild_id ctx \<noteq> None" and "\<not> manage_messages e ctx"
  shows "calls (snd (quote e ctx msg w)) =
           calls w @
             [Send (channel_id ctx)
                (clean_content e ctx
                   (if spec_used e (lexer e msg) \<noteq> {} then spec_output e True (lexer e msg)
                    else msg))]
       \<and> replies (snd (quote e ctx msg w)) = replies w
       \<and> usage (snd (quote e ctx msg w)) = usage w"
proof -
  have "fst (extract_result e quote_predicate msg) =
          (if spec_used e (lexer e msg) \<noteq> {} then spec_output e True (lexer e msg) else msg)"
    using extract_result_eq [of e True msg] by (simp add: mode_predicate_def)
  then show ?thesis
    using quote_without_permission [OF assms, of msg w] by simp
qed

text \<open>
  User 7 quotes \<^verbatim>\<open>a :x: b :y: c\<close> where the bot may not manage messages.
\<close>

theorem quote_posts_body_without_attribution_witness:
  "calls (snd (quote ex_env (ex_message ''ec/quote a :x: b :y: c'') ''a :x: b :y: c'' ex_world))
     = [Send 5 ''a <:x:1> b <:y:2> c'']"
proof -
  have g: "guild_id (ex_message ''ec/quote a :x: b :y: c'') \<noteq> None"
    and p: "\<not> manage_messages ex_env (ex_message ''ec/quote a :x: b :y: c'')"
    by (simp_all add: ex_message_def ex_env_def)
  have s: "spec_used ex_env (lexer ex_env ''a :x: b :y: c'') = {1, 2}"
    by (auto simp: spec_used_def ex_env_def ex_lexer_def lookup_def ex_db_def strip_def)
  show ?thesis
    using quote_posts_body_without_attribution [OF g p, of "''a :x: b :y: c''" ex_world] s
    by (simp add: ex_env_def ex_lexer_def ex_message_def ex_world_def spec_output_def
          spec_contribution_def lookup_def ex_db_def strip_def)
qed

text \<open>
  The claim as it is stated fails at the same command on a fresh state: what is posted
  is the body alone, not the body behind an attribution that names the author.
\<close>

theorem quote_attribution_counterexample:
  "calls (snd (quote ex_env (ex_message ''ec/quote a :x: b :y: c'') ''a :x: b :y: c'' Emotes_init))
     = [Send 5 ''a <:x:1> b <:y:2> c'']
   \<and> calls (snd (quote ex_env (ex_message ''ec/quote a :x: b :y: c'') ''a :x: b :y: c'' Emotes_init))
     \<noteq> [Send 5 (author_mention (ex_message ''ec/quote a :x: b :y: c'') @ '' said:''
                 @ ''a <:x:1> b <:y:2> c'')]"
  by (simp add: quote_def quote_emotes_eq extract_result_def channel_send_def Let_def
        ex_env_def ex_lexer_def ex_message_def Emotes_init_def quote_predicate_def
        ex_db_def strip_def set_add_def)

text \<open>
  Claim C10. \<^verbatim>\<open>quote\<close> calls \<^verbatim>\<open>quote_emotes\<close> without \<^verbatim>\<open>log_usage\<close>, whose
  default is \<^verbatim>\<open>False\<close>: the extraction leaves the state as it is, and whatever
  \<^verbatim>\<open>quote\<close> does afterwards (it raises, or it sends the quote), the usage log after
  the command is the usage log before it.
\<close>

theorem quote_records_no_usage:
  "snd (quote_emotes e ctx (Some msg) False w) = w
   \<and> usage (snd (quote e ctx msg w)) = usage w"
  by (simp add: quote_def quote_emotes_eq channel_send_def Let_def)

end
